theory Spec2Isabelle
  imports Complex_Main
begin

section \<open>Persisted JSON documents\<close>

text \<open>
  Both managers keep their state in JSON files. What \<^verbatim>\<open>json.load\<close> does with an existing
  file is one of two things: it raises (the text is not JSON), or it yields the value that
  \<^verbatim>\<open>json.dump\<close> wrote. A file that does not exist is \<open>None\<close> in the maps below.
\<close>

datatype 'a document = Corrupt | Parsed 'a

section \<open>rollback\_manager.py\<close>

text \<open>
  The manifest dictionary of \<^verbatim>\<open>create_backup\<close>. The key \<^verbatim>\<open>rolled_back_at\<close> is absent until
  \<^verbatim>\<open>rollback\<close> sets it.
\<close>

record manifest =
  backup_id :: string
  session_id :: string
  created_at :: string
  description :: string
  backed_up_files :: "string list"
  created_files :: "string list"
  can_rollback :: bool
  rolled_back_at :: "string option"

text \<open>
  The part of the file system one \<^verbatim>\<open>RollbackManager\<close> (one session id) works on:
  \<^item> \<open>files\<close>: the working tree, relative path to content;
  \<^item> \<open>snapshots\<close>: the files under \<^verbatim>\<open>backup_dir / backup_id / rel_path\<close>, keyed by
    backup id and relative path;
  \<^item> \<open>manifest_file\<close>: the file \<^verbatim>\<open>backup_dir / "manifest.json"\<close>;
  \<^item> \<open>locked\<close>: the working-tree paths on which \<^verbatim>\<open>shutil.copy2\<close> (as destination) and
    \<^verbatim>\<open>Path.unlink\<close> raise \<^verbatim>\<open>OSError\<close>.
  Paths are relative paths in normal form (so \<^verbatim>\<open>rel_path\<close> is \<^verbatim>\<open>source\<close>), they name regular
  files, and tracked paths lie outside the backup directory: the three stores do not alias.
  Writes of the manifest and of snapshots succeed.
\<close>

record world =
  files :: "string \<rightharpoonup> string"
  snapshots :: "string \<times> string \<rightharpoonup> string"
  manifest_file :: "manifest document option"
  locked :: "string set"

definition load_manifest :: "world \<Rightarrow> manifest option" where
  "load_manifest w =
     (case manifest_file w of
        None \<Rightarrow> None
      | Some Corrupt \<Rightarrow> None
      | Some (Parsed m) \<Rightarrow> Some m)"

definition save_manifest :: "manifest \<Rightarrow> world \<Rightarrow> world" where
  "save_manifest m w = w\<lparr>manifest_file := Some (Parsed m)\<rparr>"

text \<open>
  \<^verbatim>\<open>create_backup\<close>: \<open>sid\<close> is \<^verbatim>\<open>self.session_id\<close>, \<open>bid\<close> and \<open>now\<close> are the two readings of
  the clock (\<^verbatim>\<open>strftime("%Y%m%d_%H%M%S")\<close> and \<^verbatim>\<open>isoformat()\<close>).
\<close>

definition create_backup :: "string \<Rightarrow> string \<Rightarrow> string \<Rightarrow> string \<Rightarrow> world \<Rightarrow> string \<times> world" where
  "create_backup sid bid now descr w =
     (bid, save_manifest
        \<lparr>backup_id = bid, session_id = sid, created_at = now, description = descr,
         backed_up_files = [], created_files = [], can_rollback = True,
         rolled_back_at = None\<rparr> w)"

definition track_file_creation :: "string \<Rightarrow> world \<Rightarrow> world" where
  "track_file_creation file_path w =
     (case load_manifest w of
        None \<Rightarrow> w
      | Some m \<Rightarrow>
          save_manifest
            (if file_path \<notin> set (created_files m)
             then m\<lparr>created_files := created_files m @ [file_path]\<rparr>
             else m) w)"

definition backup_file_before_change :: "string \<Rightarrow> world \<Rightarrow> world" where
  "backup_file_before_change file_path w =
     (case load_manifest w of
        None \<Rightarrow> w
      | Some m \<Rightarrow>
          (case files w file_path of
             None \<Rightarrow> w
           | Some content \<Rightarrow>
               save_manifest
                 (if file_path \<notin> set (backed_up_files m)
                  then m\<lparr>backed_up_files := backed_up_files m @ [file_path]\<rparr>
                  else m)
                 (w\<lparr>snapshots := (snapshots w)((backup_id m, file_path) \<mapsto> content)\<rparr>)))"

text \<open>The caller's own write to a working-tree file, between two tracking calls.\<close>

definition write_text :: "string \<Rightarrow> string \<Rightarrow> world \<Rightarrow> world" where
  "write_text file_path content w = w\<lparr>files := (files w)(file_path \<mapsto> content)\<rparr>"

text \<open>\<^verbatim>\<open>str(e)\<close> of the \<^verbatim>\<open>OSError\<close> raised on a locked path.\<close>

definition os_error :: "string \<Rightarrow> string" where
  "os_error file_path = ''[Errno 13] Permission denied: '' @ [CHR 0x27] @ file_path @ [CHR 0x27]"

text \<open>The three f-strings that \<^verbatim>\<open>rollback\<close> appends to \<^verbatim>\<open>errors\<close>.\<close>

definition backup_not_found :: "string \<Rightarrow> string" where
  "backup_not_found file_path = ''Backup not found: '' @ file_path"

definition error_restoring :: "string \<Rightarrow> string" where
  "error_restoring file_path = ''Error restoring '' @ file_path @ '': '' @ os_error file_path"

definition error_deleting :: "string \<Rightarrow> string" where
  "error_deleting file_path = ''Error deleting '' @ file_path @ '': '' @ os_error file_path"

text \<open>
  The first loop of \<^verbatim>\<open>rollback\<close>, with the world and the lists \<^verbatim>\<open>files_restored\<close> and
  \<^verbatim>\<open>errors\<close> as its state. The \<^verbatim>\<open>try\<close> is inside the loop body: an exception adds a
  message and the loop goes on.
\<close>

fun restore_files ::
  "string \<Rightarrow> string list \<Rightarrow> world \<times> string list \<times> string list \<Rightarrow> world \<times> string list \<times> string list"
where
  "restore_files bid [] acc = acc"
| "restore_files bid (file_path # rest) (w, restored, errs) =
     (case snapshots w (bid, file_path) of
        Some content \<Rightarrow>
          if file_path \<in> locked w
          then restore_files bid rest (w, restored, errs @ [error_restoring file_path])
          else restore_files bid rest
                 (w\<lparr>files := (files w)(file_path \<mapsto> content)\<rparr>, restored @ [file_path], errs)
      | None \<Rightarrow> restore_files bid rest (w, restored, errs @ [backup_not_found file_path]))"

text \<open>The second loop: a created file that is not there is skipped without a message.\<close>

fun delete_files ::
  "string list \<Rightarrow> world \<times> string list \<times> string list \<Rightarrow> world \<times> string list \<times> string list"
where
  "delete_files [] acc = acc"
| "delete_files (file_path # rest) (w, deleted, errs) =
     (if file_path \<in> dom (files w)
      then if file_path \<in> locked w
           then delete_files rest (w, deleted, errs @ [error_deleting file_path])
           else delete_files rest
                  (w\<lparr>files := (files w)(file_path := None)\<rparr>, deleted @ [file_path], errs)
      else delete_files rest (w, deleted, errs))"

text \<open>Decimal digits of a length, for the f-string of the summary.\<close>

fun str_nat :: "nat \<Rightarrow> string" where
  "str_nat n =
     (if n < 10 then [char_of (48 + n)]
      else str_nat (n div 10) @ [char_of (48 + n mod 10)])"

declare str_nat.simps [simp del]

record report =
  success :: bool
  files_restored :: "string list"
  files_deleted :: "string list"
  errors :: "string list"
  summary :: string

text \<open>
  \<^verbatim>\<open>rollback\<close> returns a dictionary: \<open>Refused\<close> is the one with the keys \<^verbatim>\<open>success\<close> (false)
  and \<^verbatim>\<open>message\<close>, \<open>Done\<close> the full report.
\<close>

datatype rollback_result = Refused string | Done report

definition rollback :: "string \<Rightarrow> world \<Rightarrow> rollback_result \<times> world" where
  "rollback now w =
     (case load_manifest w of
        None \<Rightarrow> (Refused ''No backup found for this session'', w)
      | Some m \<Rightarrow>
          if \<not> can_rollback m
          then (Refused ''Rollback already performed or backup corrupted'', w)
          else
            (case restore_files (backup_id m) (backed_up_files m) (w, [], []) of
               (w1, restored, errs1) \<Rightarrow>
                 (case delete_files (created_files m) (w1, [], errs1) of
                    (w2, deleted, errs2) \<Rightarrow>
                      (Done \<lparr>success = (length errs2 = 0),
                             files_restored = restored,
                             files_deleted = deleted,
                             errors = errs2,
                             summary = ''Restored '' @ str_nat (length restored) @ '' files, deleted ''
                                       @ str_nat (length deleted) @ '' files''\<rparr>,
                       save_manifest (m\<lparr>can_rollback := False, rolled_back_at := Some now\<rparr>) w2))))"

text \<open>
  The calls a session makes on one manager, and the caller's own writes between them; a
  history is a list of calls, run from left to right.
\<close>

datatype call =
    Track_creation string
  | Track_modification string
  | Rollback string
  | Write_text string string

fun perform :: "call \<Rightarrow> world \<Rightarrow> world" where
  "perform (Track_creation p) w = track_file_creation p w"
| "perform (Track_modification p) w = backup_file_before_change p w"
| "perform (Rollback now) w = snd (rollback now w)"
| "perform (Write_text p c) w = write_text p c w"

fun perform_all :: "call list \<Rightarrow> world \<Rightarrow> world" where
  "perform_all [] w = w"
| "perform_all (c # cs) w = perform_all cs (perform c w)"

text \<open>
  What one attempt of the first loop does, for stating the outcome of \<^verbatim>\<open>rollback\<close>: a path
  is restorable when its snapshot exists and the copy does not raise; \<open>restored_tree\<close> is
  the working tree after the first loop.
\<close>

definition restorable :: "world \<Rightarrow> manifest \<Rightarrow> string \<Rightarrow> bool" where
  "restorable w m p \<longleftrightarrow> snapshots w (backup_id m, p) \<noteq> None \<and> p \<notin> locked w"

definition restore_failure :: "world \<Rightarrow> manifest \<Rightarrow> string \<Rightarrow> string" where
  "restore_failure w m p =
     (if snapshots w (backup_id m, p) = None then backup_not_found p else error_restoring p)"

definition restored_tree :: "world \<Rightarrow> manifest \<Rightarrow> string \<rightharpoonup> string" where
  "restored_tree w m p =
     (if p \<in> set (backed_up_files m) \<and> restorable w m p
      then snapshots w (backup_id m, p) else files w p)"

section \<open>Python floats\<close>

text \<open>
  A Python float is an IEEE 754 double. The model keeps a float by its exact value, a
  rational, and rounds the exact result of every arithmetic operation to the nearest
  double, a tie going to the even mantissa, as the hardware does. The exponent range is
  not bounded: overflow and subnormal numbers are out of reach of the scores, which lie
  between 0 and 1 and are built from quotients of set sizes.
\<close>

text \<open>The nearest integer, a tie going to the even one.\<close>

definition round_half_even :: "rat \<Rightarrow> int" where
  "round_half_even x =
     (let f = \<lfloor>x\<rfloor>; d = x - of_int f
      in if d < 1 / 2 then f
         else if 1 / 2 < d then f + 1
         else if even f then f else f + 1)"

text \<open>
  The binary exponent of a positive rational: the \<open>e\<close> with \<open>2 ^ e \<le> x < 2 ^ (e + 1)\<close>,
  found by halving from 1 upwards and by doubling below 1.
\<close>

function exponent_ge :: "rat \<Rightarrow> int" where
  "exponent_ge x = (if x < 2 then 0 else exponent_ge (x / 2) + 1)"
  by pat_completeness auto
termination
proof (relation "measure (\<lambda>x. nat \<lfloor>x\<rfloor>)")
  show "wf (measure (\<lambda>x::rat. nat \<lfloor>x\<rfloor>))" by simp
next
  fix x :: rat
  assume "\<not> x < 2"
  then have x: "2 \<le> x" by simp
  have "\<lfloor>x / 2\<rfloor> < \<lfloor>x\<rfloor>"
  proof -
    have "x / 2 < of_int \<lfloor>x\<rfloor>"
    proof -
      have "x < of_int \<lfloor>x\<rfloor> + 1" by linarith
      moreover have "2 \<le> \<lfloor>x\<rfloor>" using x by linarith
      then have "(2::rat) \<le> of_int \<lfloor>x\<rfloor>" by linarith
      ultimately show ?thesis by linarith
    qed
    then show ?thesis by (simp add: floor_less_iff)
  qed
  moreover have "0 < \<lfloor>x\<rfloor>" using x by linarith
  ultimately show "(x / 2, x) \<in> measure (\<lambda>x. nat \<lfloor>x\<rfloor>)" by simp
qed

function exponent_lt :: "rat \<Rightarrow> int" where
  "exponent_lt x = (if x \<le> 0 \<or> 1 \<le> x then 0 else exponent_lt (2 * x) - 1)"
  by pat_completeness auto
termination
proof (relation "measure (\<lambda>x. nat \<lfloor>1 / x\<rfloor>)")
  show "wf (measure (\<lambda>x::rat. nat \<lfloor>1 / x\<rfloor>))" by simp
next
  fix x :: rat
  assume "\<not> (x \<le> 0 \<or> 1 \<le> x)"
  then have x: "0 < x" "x < 1" by simp_all
  let ?z = "1 / x"
  have z: "1 < ?z" using x by simp
  have "\<lfloor>?z / 2\<rfloor> < \<lfloor>?z\<rfloor>"
  proof -
    have "?z / 2 < of_int \<lfloor>?z\<rfloor>"
    proof -
      have "?z < of_int \<lfloor>?z\<rfloor> + 1" by linarith
      moreover have "1 \<le> \<lfloor>?z\<rfloor>" using z by linarith
      then have "(1::rat) \<le> of_int \<lfloor>?z\<rfloor>" by linarith
      ultimately show ?thesis using z by linarith
    qed
    then show ?thesis by (simp add: floor_less_iff)
  qed
  moreover have "1 / (2 * x) = ?z / 2" by simp
  ultimately have "\<lfloor>1 / (2 * x)\<rfloor> < \<lfloor>1 / x\<rfloor>" by (simp only:)
  moreover have "0 < \<lfloor>?z\<rfloor>" using z by linarith
  ultimately show "(2 * x, x) \<in> measure (\<lambda>x. nat \<lfloor>1 / x\<rfloor>)"
    by (simp only: in_measure)
qed

declare exponent_ge.simps [simp del] exponent_lt.simps [simp del]

definition exponent :: "rat \<Rightarrow> int" where
  "exponent x = (if x < 1 then exponent_lt x else exponent_ge x)"

text \<open>
  Rounding to a double: 53 bits of mantissa, so the doubles of the binade of \<open>x\<close> are the
  multiples of \<open>2 ^ (e - 52)\<close>.
\<close>

definition fl :: "rat \<Rightarrow> rat" where
  "fl x =
     (if x = 0 then 0
      else let u = power_int 2 (exponent \<bar>x\<bar> - 52)
           in sgn x * (of_int (round_half_even (\<bar>x\<bar> / u)) * u))"

text \<open>
  The operations the module uses: \<^verbatim>\<open>a + b\<close> and \<^verbatim>\<open>a * b\<close> on floats, and \<^verbatim>\<open>i / u\<close> on two
  integers (Python's true division, correctly rounded).
\<close>

definition float_add :: "rat \<Rightarrow> rat \<Rightarrow> rat" where
  "float_add a b = fl (a + b)"

definition float_mul :: "rat \<Rightarrow> rat \<Rightarrow> rat" where
  "float_mul a b = fl (a * b)"

definition true_div :: "nat \<Rightarrow> nat \<Rightarrow> rat" where
  "true_div i u = fl (of_nat i / of_nat u)"

text \<open>
  \<^verbatim>\<open>round(x, 2)\<close> on a float: CPython rounds the exact value of \<open>x\<close> to two decimals, a tie
  going to the even digit, and returns the double nearest to that decimal.
\<close>

definition round2 :: "rat \<Rightarrow> rat" where
  "round2 x = fl (of_int (round_half_even (x * 100)) / 100)"

section \<open>agent\_reuse.py\<close>

text \<open>
  The dictionaries of this module, typed by the docstring of \<^verbatim>\<open>save_configuration\<close>. A key
  that the code reads with \<^verbatim>\<open>.get\<close> or \<^verbatim>\<open>[...]\<close> and that a caller may leave out is an
  option: \<open>None\<close> is the absent key. A \<^verbatim>\<open>project_info\<close> and a configuration share the two
  keys that the similarity reads, so both are extensions of \<open>descriptor\<close>. A score is
  a float, kept by its exact value as above; Python's unbounded integers are \<open>int\<close>.

  Names: the leading underscore of a private method is dropped (\<^verbatim>\<open>_load_index\<close> is
  \<open>load_index\<close>); \<^verbatim>\<open>_save_configuration\<close>, which would clash with \<^verbatim>\<open>save_configuration\<close>, is
  \<open>save_configuration_file\<close>; the keys of an index entry carry the prefix \<open>ix_\<close>.
\<close>

record descriptor =
  project_type :: "string option"
  tech_stack :: "string list option"

record config = descriptor +
  project_name :: "string option"
  agents_used :: "string list"
  skills_generated :: "string list"
  commands_generated :: "string list"
  hooks_generated :: "string list"
  success_metrics :: "(string \<times> int) list"
  user_satisfaction :: int

record stored_config = config +
  config_id :: string
  created_at :: string
  reuse_count :: int

record index_entry =
  ix_config_id :: string
  ix_project_type :: string
  ix_project_name :: string
  ix_tech_stack :: "string list"
  ix_created_at :: string
  ix_reuse_count :: int

text \<open>An element of the list that \<^verbatim>\<open>find_similar_configurations\<close> returns.\<close>

record similar_entry = index_entry +
  similarity :: rat
  full_config :: stored_config

text \<open>
  One \<^verbatim>\<open>AgentReuseManager\<close>: the files \<^verbatim>\<open>storage_dir / f"{config_id}.json"\<close> by identifier,
  the file \<^verbatim>\<open>index.json\<close>, and \<^verbatim>\<open>self.index['configurations']\<close>. Writes succeed.
\<close>

record store =
  config_files :: "string \<rightharpoonup> stored_config document"
  index_file :: "index_entry list document option"
  index :: "index_entry list"

datatype error = KeyError string

definition load_index :: "store \<Rightarrow> index_entry list" where
  "load_index st =
     (case index_file st of
        Some (Parsed ix) \<Rightarrow> ix
      | Some Corrupt \<Rightarrow> []
      | None \<Rightarrow> [])"

text \<open>The constructor: \<^verbatim>\<open>self.index = self._load_index()\<close>.\<close>

definition init :: "store \<Rightarrow> store" where
  "init st = st\<lparr>index := load_index st\<rparr>"

definition save_index :: "store \<Rightarrow> store" where
  "save_index st = st\<lparr>index_file := Some (Parsed (index st))\<rparr>"

definition load_configuration :: "string \<Rightarrow> store \<Rightarrow> stored_config option" where
  "load_configuration cid st =
     (case config_files st cid of
        None \<Rightarrow> None
      | Some Corrupt \<Rightarrow> None
      | Some (Parsed c) \<Rightarrow> Some c)"

definition save_configuration_file :: "string \<Rightarrow> stored_config \<Rightarrow> store \<Rightarrow> store" where
  "save_configuration_file cid c st = st\<lparr>config_files := (config_files st)(cid \<mapsto> Parsed c)\<rparr>"

text \<open>
  \<^verbatim>\<open>save_configuration\<close>: \<open>cid\<close> and \<open>now\<close> are the two readings of the clock. The file of
  the configuration is written before \<^verbatim>\<open>config['project_type']\<close> is read, so the
  \<^verbatim>\<open>KeyError\<close> of a payload without that key leaves the file behind.
\<close>

definition save_configuration :: "string \<Rightarrow> string \<Rightarrow> config \<Rightarrow> store \<Rightarrow> (error + string) \<times> store" where
  "save_configuration cid now cfg st =
     (let config_with_meta = config.extend cfg (stored_config.fields cid now 0);
          st1 = save_configuration_file cid config_with_meta st
      in case project_type cfg of
           None \<Rightarrow> (Inl (KeyError ''project_type''), st1)
         | Some pt \<Rightarrow>
             (Inr cid,
              save_index
                (st1\<lparr>index := index st1 @
                   [\<lparr>ix_config_id = cid,
                     ix_project_type = pt,
                     ix_project_name = (case project_name cfg of None \<Rightarrow> ''unknown'' | Some n \<Rightarrow> n),
                     ix_tech_stack = (case tech_stack cfg of None \<Rightarrow> [] | Some ts \<Rightarrow> ts),
                     ix_created_at = stored_config.created_at config_with_meta,
                     ix_reuse_count = 0\<rparr>]\<rparr>)))"

text \<open>\<^verbatim>\<open>set(d.get('tech_stack', []))\<close>, for a \<^verbatim>\<open>project_info\<close> and for a configuration.\<close>

definition stack_set :: "'a descriptor_scheme \<Rightarrow> string set" where
  "stack_set d = set (case tech_stack d of None \<Rightarrow> [] | Some ts \<Rightarrow> ts)"

text \<open>
  The dictionary \<^verbatim>\<open>weights\<close>: the literal \<^verbatim>\<open>0.4\<close> is the double nearest to 2/5. The weight
  of \<^verbatim>\<open>'size'\<close> is never read.
\<close>

definition weight_project_type :: rat where
  "weight_project_type = fl (2 / 5)"

definition weight_tech_stack :: rat where
  "weight_tech_stack = fl (2 / 5)"

text \<open>
  \<^verbatim>\<open>_calculate_similarity\<close>: \<open>score0\<close> and \<open>score1\<close> are the values of \<^verbatim>\<open>score\<close> after the
  first and the second \<^verbatim>\<open>if\<close>; \<^verbatim>\<open>score\<close> starts as \<^verbatim>\<open>0.0\<close> and each \<^verbatim>\<open>+=\<close> is a float
  addition.
\<close>

definition calculate_similarity :: "'a descriptor_scheme \<Rightarrow> 'b descriptor_scheme \<Rightarrow> rat" where
  "calculate_similarity project_info cfg =
     (let score0 = (if project_type project_info = project_type cfg
                    then float_add 0 weight_project_type else 0);
          project_stack = stack_set project_info;
          config_stack = stack_set cfg;
          score1 =
            (if project_stack \<noteq> {} \<and> config_stack \<noteq> {}
             then let intersection = card (project_stack \<inter> config_stack);
                      union = card (project_stack \<union> config_stack);
                      tech_similarity = (if union > 0 then true_div intersection union else 0)
                  in float_add score0 (float_mul weight_tech_stack tech_similarity)
             else score0)
      in min score1 1)"

text \<open>The loop of \<^verbatim>\<open>find_similar_configurations\<close>, with the list \<^verbatim>\<open>similar\<close> as its state.\<close>

fun collect_similar ::
  "'a descriptor_scheme \<Rightarrow> rat \<Rightarrow> store \<Rightarrow> index_entry list \<Rightarrow> similar_entry list \<Rightarrow> similar_entry list"
where
  "collect_similar project_info min_similarity st [] similar = similar"
| "collect_similar project_info min_similarity st (config_ref # rest) similar =
     (case load_configuration (ix_config_id config_ref) st of
        None \<Rightarrow> collect_similar project_info min_similarity st rest similar
      | Some cfg \<Rightarrow>
          (let sim = calculate_similarity project_info cfg
           in if sim \<ge> min_similarity
              then collect_similar project_info min_similarity st rest
                     (similar @ [index_entry.extend config_ref (similar_entry.fields (round2 sim) cfg)])
              else collect_similar project_info min_similarity st rest similar))"

text \<open>
  \<^verbatim>\<open>similar.sort(key=lambda x: x['similarity'], reverse=True)\<close>: Python's sort is stable, also
  with \<^verbatim>\<open>reverse=True\<close>, which is the stable ascending sort on the negated key.
\<close>

definition sort_by_similarity :: "similar_entry list \<Rightarrow> similar_entry list" where
  "sort_by_similarity similar = sort_key (\<lambda>x. - similarity x) similar"

definition find_similar_configurations ::
  "'a descriptor_scheme \<Rightarrow> rat \<Rightarrow> store \<Rightarrow> similar_entry list" where
  "find_similar_configurations project_info min_similarity st =
     sort_by_similarity (collect_similar project_info min_similarity st (index st) [])"

definition reuse_configuration :: "string \<Rightarrow> store \<Rightarrow> stored_config option \<times> store" where
  "reuse_configuration cid st =
     (case load_configuration cid st of
        None \<Rightarrow> (None, st)
      | Some cfg \<Rightarrow>
          (let cfg' = cfg\<lparr>reuse_count := reuse_count cfg + 1\<rparr>;
               st1 = save_configuration_file cid cfg' st;
               st2 = st1\<lparr>index :=
                       map (\<lambda>c. if ix_config_id c = cid
                                 then c\<lparr>ix_reuse_count := ix_reuse_count c + 1\<rparr> else c)
                           (index st1)\<rparr>
           in (Some cfg', save_index st2)))"

text \<open>\<open>n\<close> calls of \<^verbatim>\<open>reuse_configuration\<close> on one identifier, one after the other.\<close>

fun reuse_times :: "nat \<Rightarrow> string \<Rightarrow> store \<Rightarrow> store" where
  "reuse_times 0 cid st = st"
| "reuse_times (Suc n) cid st = reuse_times n cid (snd (reuse_configuration cid st))"

text \<open>
  The test that decides whether the loop of \<^verbatim>\<open>find_similar_configurations\<close> keeps an index
  entry: its configuration loads and scores at least the threshold.
\<close>

definition hit :: "'a descriptor_scheme \<Rightarrow> rat \<Rightarrow> store \<Rightarrow> index_entry \<Rightarrow> bool" where
  "hit q t st config_ref =
     (case load_configuration (ix_config_id config_ref) st of
        None \<Rightarrow> False
      | Some cfg \<Rightarrow> t \<le> calculate_similarity q cfg)"

section \<open>Example data\<close>

text \<open>
  A session in the middle of its work: \<^verbatim>\<open>a.txt\<close> has a snapshot and was rewritten, the
  snapshot of \<^verbatim>\<open>gone.txt\<close> is missing, \<^verbatim>\<open>ro.txt\<close> and \<^verbatim>\<open>kept.txt\<close> cannot be written or
  unlinked, \<^verbatim>\<open>missing.txt\<close> was tracked as created and is not there.
\<close>

definition demo_manifest :: manifest where
  "demo_manifest =
     \<lparr>backup_id = ''20250101_120000'', session_id = ''demo'',
      created_at = ''2025-01-01T12:00:00'', description = ''Automation setup'',
      backed_up_files = [''a.txt'', ''gone.txt'', ''ro.txt''],
      created_files = [''b.txt'', ''missing.txt'', ''kept.txt''],
      can_rollback = True, rolled_back_at = None\<rparr>"

definition demo_world :: world where
  "demo_world =
     \<lparr>files = [''a.txt'' \<mapsto> ''new'', ''ro.txt'' \<mapsto> ''changed'', ''b.txt'' \<mapsto> ''B'',
               ''kept.txt'' \<mapsto> ''K''],
      snapshots = [(''20250101_120000'', ''a.txt'') \<mapsto> ''orig'',
                   (''20250101_120000'', ''ro.txt'') \<mapsto> ''old''],
      manifest_file = Some (Parsed demo_manifest),
      locked = {''ro.txt'', ''kept.txt''}\<rparr>"

text \<open>A working tree with one file and no backup directory yet.\<close>

definition first_world :: world where
  "first_world =
     \<lparr>files = [''a.txt'' \<mapsto> ''first''], snapshots = Map.empty, manifest_file = None,
      locked = {}\<rparr>"

text \<open>
  The record and the query of the module's own example, with \<^verbatim>\<open>Next\<close> for \<^verbatim>\<open>Next.js\<close>, and
  two more records that differ from it in the third technology.
\<close>

definition record_A :: config where
  "record_A =
     \<lparr>project_type = Some ''programming'',
      tech_stack = Some [''TypeScript'', ''React'', ''Next''],
      project_name = Some ''my-web-app'',
      agents_used = [''project-analyzer'', ''security-analyzer''],
      skills_generated = [''security-scanner''],
      commands_generated = [''/security-check''],
      hooks_generated = [''pre-commit-security''],
      success_metrics = [(''time_saved'', 50), (''issues_prevented'', 3)],
      user_satisfaction = 5\<rparr>"

definition record_B :: config where
  "record_B = record_A\<lparr>tech_stack := Some [''TypeScript'', ''React'', ''Vue''],
                        project_name := Some ''my-vue-app''\<rparr>"

definition record_C :: config where
  "record_C = record_A\<lparr>tech_stack := Some [''TypeScript'', ''React'', ''Vite''],
                        project_name := Some ''my-vite-app''\<rparr>"

definition query_Q :: descriptor where
  "query_Q = \<lparr>project_type = Some ''programming'',
              tech_stack = Some [''TypeScript'', ''React'', ''Vite'']\<rparr>"

definition query_T :: descriptor where
  "query_T = \<lparr>project_type = Some ''programming'', tech_stack = Some [''TypeScript'']\<rparr>"

text \<open>
  Two records of ten and of nine technologies, and a query that shares one technology
  with each and the \<^verbatim>\<open>project_type\<close> with neither.
\<close>

definition record_D :: config where
  "record_D = record_A\<lparr>project_type := Some ''data'',
       tech_stack := Some [''a'', ''b'', ''c'', ''d'', ''e'', ''f'', ''g'', ''h'', ''i'', ''j''],
       project_name := Some ''ten''\<rparr>"

definition record_E :: config where
  "record_E = record_A\<lparr>project_type := Some ''data'',
       tech_stack := Some [''a'', ''b'', ''c'', ''d'', ''e'', ''f'', ''g'', ''h'', ''i''],
       project_name := Some ''nine''\<rparr>"

definition query_a :: descriptor where
  "query_a = \<lparr>project_type = Some ''programming'', tech_stack = Some [''a'']\<rparr>"

text \<open>
  Stores: a new one; the one after saving \<open>record_A\<close>; the one after saving
  \<open>record_A\<close>, \<open>record_B\<close> and \<open>record_C\<close>, a day apart; the one after saving
  \<open>record_D\<close> and then \<open>record_E\<close>; and one whose only configuration file and whose
  index file are not JSON.
\<close>

definition empty_store :: store where
  "empty_store = \<lparr>config_files = Map.empty, index_file = None, index = []\<rparr>"

definition store_A :: store where
  "store_A = snd (save_configuration ''20250101_120000'' ''2025-01-01T12:00:00'' record_A (init empty_store))"

definition store_three :: store where
  "store_three =
     snd (save_configuration ''20250103_120000'' ''2025-01-03T12:00:00'' record_C
       (snd (save_configuration ''20250102_120000'' ''2025-01-02T12:00:00'' record_B store_A)))"

definition store_two :: store where
  "store_two =
     snd (save_configuration ''20250202_120000'' ''2025-02-02T12:00:00'' record_E
       (snd (save_configuration ''20250201_120000'' ''2025-02-01T12:00:00'' record_D
          (init empty_store))))"

definition corrupt_store :: store where
  "corrupt_store =
     \<lparr>config_files = [''20250101_120000'' \<mapsto> Corrupt], index_file = Some Corrupt, index = []\<rparr>"

section \<open>The rollback manager: the two loops\<close>

lemma restore_files_eq:
  "restore_files (backup_id m) ps (w, restored, errs) =
     (w\<lparr>files := (\<lambda>p. if p \<in> set ps \<and> restorable w m p
                       then snapshots w (backup_id m, p) else files w p)\<rparr>,
      restored @ filter (restorable w m) ps,
      errs @ map (restore_failure w m) (filter (\<lambda>p. \<not> restorable w m p) ps))"
proof (induction ps arbitrary: w restored errs)
  case Nil
  show ?case by simp
next
  case (Cons x xs)
  have frame: "restorable (w\<lparr>files := f\<rparr>) m = restorable w m"
              "restore_failure (w\<lparr>files := f\<rparr>) m = restore_failure w m" for f
    by (simp_all add: restorable_def restore_failure_def fun_eq_iff)
  show ?case
    by (cases "snapshots w (backup_id m, x)")
       (auto simp: Cons.IH frame fun_eq_iff restorable_def restore_failure_def
             intro!: arg_cong[where f="\<lambda>f. w\<lparr>files := f\<rparr>"])
qed

text \<open>
  The second loop tests \<^verbatim>\<open>path.exists()\<close> on the tree as the loop has left it; a locked
  path is never removed, so for the messages the tree at the start decides.
\<close>

lemma delete_files_eq:
  "\<exists>del. delete_files ps (w, deleted, errs) =
     (w\<lparr>files := (\<lambda>p. if p \<in> set ps \<and> p \<notin> locked w then None else files w p)\<rparr>,
      deleted @ del,
      errs @ map error_deleting (filter (\<lambda>p. p \<in> dom (files w) \<and> p \<in> locked w) ps))
     \<and> set del = {p \<in> set ps. p \<in> dom (files w) \<and> p \<notin> locked w}"
proof (induction ps arbitrary: w deleted errs)
  case Nil
  show ?case by simp
next
  case (Cons x xs)
  show ?case
  proof (cases "x \<in> dom (files w) \<and> x \<notin> locked w")
    case False
    let ?errs = "if x \<in> dom (files w) then errs @ [error_deleting x] else errs"
    from Cons.IH[of w deleted ?errs] obtain del where
      d: "delete_files xs (w, deleted, ?errs) =
           (w\<lparr>files := (\<lambda>p. if p \<in> set xs \<and> p \<notin> locked w then None else files w p)\<rparr>,
            deleted @ del,
            ?errs @ map error_deleting (filter (\<lambda>p. p \<in> dom (files w) \<and> p \<in> locked w) xs))"
      and s: "set del = {p \<in> set xs. p \<in> dom (files w) \<and> p \<notin> locked w}"
      by blast
    have "(\<lambda>p. if p \<in> set xs \<and> p \<notin> locked w then None else files w p)
        = (\<lambda>p. if p \<in> set (x # xs) \<and> p \<notin> locked w then None else files w p)"
      using False by (auto simp: fun_eq_iff)
    with False d s show ?thesis
      by (intro exI[of _ del]) (auto split: if_splits)
  next
    case True
    let ?w = "w\<lparr>files := (files w)(x := None)\<rparr>"
    from Cons.IH[of ?w "deleted @ [x]" errs] obtain del where
      d: "delete_files xs (?w, deleted @ [x], errs) =
           (?w\<lparr>files := (\<lambda>p. if p \<in> set xs \<and> p \<notin> locked ?w then None else files ?w p)\<rparr>,
            (deleted @ [x]) @ del,
            errs @ map error_deleting (filter (\<lambda>p. p \<in> dom (files ?w) \<and> p \<in> locked ?w) xs))"
      and s: "set del = {p \<in> set xs. p \<in> dom (files ?w) \<and> p \<notin> locked ?w}"
      by blast
    have f: "(\<lambda>p. if p \<in> set xs \<and> p \<notin> locked ?w then None else files ?w p)
           = (\<lambda>p. if p \<in> set (x # xs) \<and> p \<notin> locked w then None else files w p)"
      using True by (auto simp: fun_eq_iff)
    have g: "filter (\<lambda>p. p \<in> dom (files ?w) \<and> p \<in> locked ?w) xs
           = filter (\<lambda>p. p \<in> dom (files w) \<and> p \<in> locked w) xs"
      using True by (intro filter_cong) auto
    show ?thesis
      using True d s f g by (intro exI[of _ "x # del"]) auto
  qed
qed

section \<open>The rollback manager: a consumed manifest stays consumed\<close>

lemma rollback_refused:
  assumes "load_manifest w = Some m" and "\<not> can_rollback m"
  shows "rollback now w = (Refused ''Rollback already performed or backup corrupted'', w)"
  using assms by (simp add: rollback_def)

lemma rollback_manifest:
  assumes "load_manifest w = Some m" and "can_rollback m"
  shows "load_manifest (snd (rollback now w)) =
           Some (m\<lparr>can_rollback := False, rolled_back_at := Some now\<rparr>)"
  using assms
  by (auto simp: rollback_def load_manifest_def save_manifest_def split: prod.splits)

lemma perform_keeps_consumed:
  assumes "load_manifest w = Some m" and "\<not> can_rollback m"
  shows "\<exists>m'. load_manifest (perform c w) = Some m' \<and> \<not> can_rollback m'"
proof (cases c)
  case (Track_creation p)
  with assms show ?thesis
    by (simp add: track_file_creation_def load_manifest_def save_manifest_def)
next
  case (Track_modification p)
  with assms show ?thesis
    by (cases "files w p")
       (simp_all add: backup_file_before_change_def load_manifest_def save_manifest_def)
next
  case (Rollback now)
  with assms show ?thesis by (simp add: rollback_refused)
next
  case (Write_text p c)
  with assms show ?thesis by (simp add: write_text_def load_manifest_def)
qed

lemma perform_all_keeps_consumed:
  assumes "load_manifest w = Some m" and "\<not> can_rollback m"
  shows "\<exists>m'. load_manifest (perform_all cs w) = Some m' \<and> \<not> can_rollback m'"
  using assms
proof (induction cs arbitrary: w m)
  case Nil
  then show ?case by simp
next
  case (Cons c cs)
  from perform_keeps_consumed[OF Cons.prems] obtain m' where
    "load_manifest (perform c w) = Some m'" "\<not> can_rollback m'" by blast
  from Cons.IH[OF this] show ?case by simp
qed

lemma demo_world_manifest: "load_manifest demo_world = Some demo_manifest"
  by (simp add: load_manifest_def demo_world_def)

lemma demo_manifest_open: "can_rollback demo_manifest"
  by (simp add: demo_manifest_def)

text \<open>
  C2. Rollback is one-shot. On a manifest with \<^verbatim>\<open>can_rollback\<close> true, \<^verbatim>\<open>rollback\<close> leaves a
  manifest with \<^verbatim>\<open>can_rollback\<close> false. After that, whatever calls the session goes on to
  make (tracking calls, further rollbacks, writes of its own), every \<^verbatim>\<open>rollback\<close> is refused
  with the message of a rollback already performed and returns the world as it found it,
  manifest and files alike, and \<^verbatim>\<open>can_rollback\<close> is still false: it never goes back to
  true.
\<close>

theorem rollback_one_shot:
  assumes "load_manifest w = Some m" and "can_rollback m"
  shows "\<exists>m'. load_manifest (snd (rollback now w)) = Some m' \<and> \<not> can_rollback m' \<and>
           (\<forall>cs now'. rollback now' (perform_all cs (snd (rollback now w))) =
                (Refused ''Rollback already performed or backup corrupted'',
                 perform_all cs (snd (rollback now w)))
              \<and> (\<exists>m''. load_manifest (perform_all cs (snd (rollback now w))) = Some m''
                       \<and> \<not> can_rollback m''))"
proof -
  let ?m' = "m\<lparr>can_rollback := False, rolled_back_at := Some now\<rparr>"
  have a: "load_manifest (snd (rollback now w)) = Some ?m'"
    by (rule rollback_manifest[OF assms])
  have b: "\<not> can_rollback ?m'" by simp
  have "rollback now' (perform_all cs (snd (rollback now w))) =
                (Refused ''Rollback already performed or backup corrupted'',
                 perform_all cs (snd (rollback now w)))
              \<and> (\<exists>m''. load_manifest (perform_all cs (snd (rollback now w))) = Some m''
                       \<and> \<not> can_rollback m'')" for cs now'
  proof -
    from perform_all_keeps_consumed[OF a b, of cs] obtain m'' where
      c: "load_manifest (perform_all cs (snd (rollback now w))) = Some m''" "\<not> can_rollback m''"
      by blast
    from rollback_refused[OF c] c show ?thesis by blast
  qed
  with a b show ?thesis by blast
qed

theorem rollback_one_shot_witness:
  "load_manifest demo_world = Some demo_manifest \<and> can_rollback demo_manifest \<and>
   (\<exists>m'. load_manifest (snd (rollback ''t1'' demo_world)) = Some m' \<and> \<not> can_rollback m' \<and>
      rollback ''t2'' (snd (rollback ''t1'' demo_world)) =
        (Refused ''Rollback already performed or backup corrupted'', snd (rollback ''t1'' demo_world)) \<and>
      rollback ''t3'' (perform_all [Track_creation ''c.txt'', Rollback ''t2''] (snd (rollback ''t1'' demo_world))) =
        (Refused ''Rollback already performed or backup corrupted'',
         perform_all [Track_creation ''c.txt'', Rollback ''t2''] (snd (rollback ''t1'' demo_world))))"
proof -
  from rollback_one_shot[OF demo_world_manifest demo_manifest_open, of "''t1''"]
  obtain m' where
    a: "load_manifest (snd (rollback ''t1'' demo_world)) = Some m'" "\<not> can_rollback m'"
    and b: "\<And>cs now'. rollback now' (perform_all cs (snd (rollback ''t1'' demo_world))) =
                (Refused ''Rollback already performed or backup corrupted'',
                 perform_all cs (snd (rollback ''t1'' demo_world)))"
    by blast
  from b[of "''t2''" "[]"] have c: "rollback ''t2'' (snd (rollback ''t1'' demo_world)) =
        (Refused ''Rollback already performed or backup corrupted'', snd (rollback ''t1'' demo_world))"
    by simp
  from a c b[of "''t3''" "[Track_creation ''c.txt'', Rollback ''t2'']"]
  show ?thesis using demo_world_manifest demo_manifest_open by blast
qed

section \<open>The rollback manager: every path is attempted\<close>

text \<open>
  C3. On a manifest with \<^verbatim>\<open>can_rollback\<close> true, \<^verbatim>\<open>rollback\<close> returns a full report and
  \<^item> restores exactly the modified paths whose snapshot exists and whose copy succeeds,
    whatever happened to the paths before them;
  \<^item> collects one message for each other modified path, then one for each created path
    that exists and cannot be unlinked, and none for a created path that is missing;
  \<^item> deletes exactly the created paths that exist and can be unlinked, so that afterwards
    no unlocked created path is left;
  \<^item> writes the manifest with \<^verbatim>\<open>can_rollback\<close> false and \<^verbatim>\<open>rolled_back_at\<close> set, failures
    or not;
  \<^item> reports success if and only if the list of messages is empty.
\<close>

theorem rollback_attempts_every_path:
  assumes "load_manifest w = Some m" and "can_rollback m"
  shows "\<exists>r w'. rollback now w = (Done r, w') \<and>
           files_restored r = filter (restorable w m) (backed_up_files m) \<and>
           errors r =
             map (restore_failure w m) (filter (\<lambda>p. \<not> restorable w m p) (backed_up_files m)) @
             map error_deleting
               (filter (\<lambda>p. p \<in> dom (restored_tree w m) \<and> p \<in> locked w) (created_files m)) \<and>
           set (files_deleted r) =
             {p \<in> set (created_files m). p \<in> dom (restored_tree w m) \<and> p \<notin> locked w} \<and>
           files w' =
             (\<lambda>p. if p \<in> set (created_files m) \<and> p \<notin> locked w then None
                  else restored_tree w m p) \<and>
           load_manifest w' = Some (m\<lparr>can_rollback := False, rolled_back_at := Some now\<rparr>) \<and>
           success r = (errors r = [])"
proof -
  let ?w1 = "w\<lparr>files := restored_tree w m\<rparr>"
  let ?restored = "filter (restorable w m) (backed_up_files m)"
  let ?errs1 = "map (restore_failure w m) (filter (\<lambda>p. \<not> restorable w m p) (backed_up_files m))"
  have r: "restore_files (backup_id m) (backed_up_files m) (w, [], []) = (?w1, ?restored, ?errs1)"
    unfolding restore_files_eq by (simp add: restored_tree_def[abs_def])
  from delete_files_eq[of "created_files m" ?w1 "[]" ?errs1] obtain del where
    d: "delete_files (created_files m) (?w1, [], ?errs1) =
          (?w1\<lparr>files := (\<lambda>p. if p \<in> set (created_files m) \<and> p \<notin> locked ?w1 then None
                              else files ?w1 p)\<rparr>,
           [] @ del,
           ?errs1 @ map error_deleting
              (filter (\<lambda>p. p \<in> dom (files ?w1) \<and> p \<in> locked ?w1) (created_files m)))"
    and s: "set del = {p \<in> set (created_files m). p \<in> dom (files ?w1) \<and> p \<notin> locked ?w1}"
    by blast
  show ?thesis
    using assms r d s
    by (simp add: rollback_def load_manifest_def save_manifest_def cong: if_cong)
qed

lemmas demo_defs = restorable_def restored_tree_def restore_failure_def demo_world_def
  demo_manifest_def domIff

theorem rollback_attempts_every_path_witness:
  "load_manifest demo_world = Some demo_manifest \<and> can_rollback demo_manifest \<and>
   (\<exists>r w'. rollback ''t1'' demo_world = (Done r, w') \<and>
      files_restored r = [''a.txt''] \<and>
      errors r = [backup_not_found ''gone.txt'', error_restoring ''ro.txt'',
                  error_deleting ''kept.txt''] \<and>
      set (files_deleted r) = {''b.txt''} \<and>
      files w' ''a.txt'' = Some ''orig'' \<and> files w' ''b.txt'' = None \<and>
      files w' ''kept.txt'' = Some ''K'' \<and> files w' ''ro.txt'' = Some ''changed'' \<and>
      load_manifest w' = Some (demo_manifest\<lparr>can_rollback := False, rolled_back_at := Some ''t1''\<rparr>) \<and>
      \<not> success r)"
proof -
  from rollback_attempts_every_path[OF demo_world_manifest demo_manifest_open, of "''t1''"]
  obtain r w' where
    a: "rollback ''t1'' demo_world = (Done r, w')"
    and b: "files_restored r = filter (restorable demo_world demo_manifest) (backed_up_files demo_manifest)"
    and c: "errors r =
             map (restore_failure demo_world demo_manifest)
               (filter (\<lambda>p. \<not> restorable demo_world demo_manifest p) (backed_up_files demo_manifest)) @
             map error_deleting
               (filter (\<lambda>p. p \<in> dom (restored_tree demo_world demo_manifest) \<and> p \<in> locked demo_world)
                  (created_files demo_manifest))"
    and d: "set (files_deleted r) =
             {p \<in> set (created_files demo_manifest).
                p \<in> dom (restored_tree demo_world demo_manifest) \<and> p \<notin> locked demo_world}"
    and e: "files w' =
             (\<lambda>p. if p \<in> set (created_files demo_manifest) \<and> p \<notin> locked demo_world then None
                  else restored_tree demo_world demo_manifest p)"
    and f: "load_manifest w' =
              Some (demo_manifest\<lparr>can_rollback := False, rolled_back_at := Some ''t1''\<rparr>)"
    and g: "success r = (errors r = [])"
    by blast
  have b': "files_restored r = [''a.txt'']"
    unfolding b by (simp add: demo_defs)
  have c': "errors r = [backup_not_found ''gone.txt'', error_restoring ''ro.txt'',
                  error_deleting ''kept.txt'']"
    unfolding c by (simp add: demo_defs)
  have d': "set (files_deleted r) = {''b.txt''}"
    unfolding d by (auto simp: demo_defs)
  have e': "files w' ''a.txt'' = Some ''orig''" "files w' ''b.txt'' = None"
      "files w' ''kept.txt'' = Some ''K''" "files w' ''ro.txt'' = Some ''changed''"
    unfolding e by (simp_all add: demo_defs)
  from g c' have g': "\<not> success r" by simp
  from a b' c' d' e' f g' show ?thesis
    using demo_world_manifest demo_manifest_open by blast
qed

section \<open>The rollback manager: tracking a modification\<close>

text \<open>
  C10. \<^verbatim>\<open>backup_file_before_change\<close> on a path that does not exist returns the world it was
  given: no snapshot is written, the manifest file is not rewritten and so gains no path,
  and the call has no failing branch there.
\<close>

theorem track_modification_missing_file_noop:
  assumes "files w file_path = None"
  shows "backup_file_before_change file_path w = w"
  using assms by (simp add: backup_file_before_change_def split: option.splits)

theorem track_modification_missing_file_noop_witness:
  "files demo_world ''ghost.txt'' = None \<and>
   backup_file_before_change ''ghost.txt'' demo_world = demo_world"
proof -
  have h: "files demo_world ''ghost.txt'' = None" by (simp add: demo_world_def)
  from h track_modification_missing_file_noop[OF h] show ?thesis by simp
qed

text \<open>
  Each call on an existing file copies it over the snapshot, also when the manifest lists
  the path already: the test on \<^verbatim>\<open>backed_up_files\<close> guards the \<^verbatim>\<open>append\<close> only.
\<close>

lemma backup_overwrites_snapshot:
  assumes "load_manifest w = Some m" and "files w p = Some c"
  shows "snapshots (backup_file_before_change p w) (backup_id m, p) = Some c"
  using assms by (simp add: backup_file_before_change_def save_manifest_def)

text \<open>
  C1. The claim is that of two \<^verbatim>\<open>track_modification\<close> calls on one path, with the file
  rewritten in between, the second does nothing and rollback restores the first content.
  In the code the second call overwrites the snapshot: with the contents \<^verbatim>\<open>first\<close>,
  \<^verbatim>\<open>second\<close> (written after the first call) and \<^verbatim>\<open>third\<close> (written after the second),
  rollback leaves \<^verbatim>\<open>second\<close> in the file, not \<^verbatim>\<open>first\<close>.
\<close>

theorem track_modification_twice_overwrites_snapshot:
  "files
     (snd (rollback ''t1''
        (write_text ''a.txt'' ''third''
           (backup_file_before_change ''a.txt''
              (write_text ''a.txt'' ''second''
                 (backup_file_before_change ''a.txt''
                    (snd (create_backup ''s'' ''b'' ''t0'' ''d'' first_world))))))))
     ''a.txt'' = Some ''second''"
  by (simp add: rollback_def write_text_def backup_file_before_change_def create_backup_def
        first_world_def load_manifest_def save_manifest_def)

section \<open>Rounding to a double is monotone\<close>

lemma round_half_even_cases:
  "round_half_even x = \<lfloor>x\<rfloor> \<or> round_half_even x = \<lfloor>x\<rfloor> + 1"
  by (simp add: round_half_even_def Let_def)

lemma round_half_even_of_int [simp]: "round_half_even (of_int n) = n"
  by (simp add: round_half_even_def)

lemma round_half_even_mono:
  assumes "x \<le> y"
  shows "round_half_even x \<le> round_half_even y"
proof (cases "\<lfloor>x\<rfloor> = \<lfloor>y\<rfloor>")
  case True
  with assms show ?thesis
    by (auto simp: round_half_even_def Let_def)
next
  case False
  with assms have "\<lfloor>x\<rfloor> < \<lfloor>y\<rfloor>" using floor_mono[OF assms] by linarith
  moreover have "round_half_even x \<le> \<lfloor>x\<rfloor> + 1" using round_half_even_cases[of x] by linarith
  moreover have "\<lfloor>y\<rfloor> \<le> round_half_even y" using round_half_even_cases[of y] by linarith
  ultimately show ?thesis by linarith
qed

lemma exponent_ge_spec:
  "1 \<le> x \<Longrightarrow> power_int 2 (exponent_ge x) \<le> x \<and> x < power_int 2 (exponent_ge x + 1)"
proof (induction x rule: exponent_ge.induct)
  case (1 x)
  show ?case
  proof (cases "x < 2")
    case True
    with 1 show ?thesis by (simp add: exponent_ge.simps)
  next
    case False
    then have "1 \<le> x / 2" by simp
    from 1(1)[OF False this]
    have a: "power_int 2 (exponent_ge (x / 2)) \<le> x / 2"
      and b: "x / 2 < power_int 2 (exponent_ge (x / 2) + 1)" by simp_all
    have e: "exponent_ge x = exponent_ge (x / 2) + 1"
      using False by (subst exponent_ge.simps) simp
    have p: "power_int (2::rat) (k + 1) = power_int 2 k * 2" for k
      by (rule power_int_add_1) simp
    from a b show ?thesis unfolding e p[of "exponent_ge (x / 2) + 1"] p[of "exponent_ge (x / 2)"]
      by simp
  qed
qed

lemma exponent_lt_spec:
  "0 < x \<Longrightarrow> x < 1 \<Longrightarrow>
     power_int 2 (exponent_lt x) \<le> x \<and> x < power_int 2 (exponent_lt x + 1)"
proof (induction x rule: exponent_lt.induct)
  case (1 x)
  from 1(2,3) have c: "\<not> (x \<le> 0 \<or> 1 \<le> x)" by simp
  have e: "exponent_lt x = exponent_lt (2 * x) - 1"
    using c by (subst exponent_lt.simps) simp
  have p: "power_int (2::rat) (k + 1) = power_int 2 k * 2" for k
    by (rule power_int_add_1) simp
  show ?case
  proof (cases "2 * x < 1")
    case True
    from 1(1)[OF c _ True] 1(2)
    have a: "power_int 2 (exponent_lt (2 * x)) \<le> 2 * x"
      and b: "2 * x < power_int 2 (exponent_lt (2 * x) + 1)" by simp_all
    from a b p[of "exponent_lt (2 * x) - 1"] p[of "exponent_lt (2 * x)"]
    show ?thesis unfolding e by simp
  next
    case False
    then have "exponent_lt (2 * x) = 0" by (subst exponent_lt.simps) simp
    with e have "exponent_lt x = - 1" by simp
    with False 1(3) show ?thesis by (simp add: power_int_def)
  qed
qed

lemma exponent_spec:
  assumes "0 < x"
  shows "power_int 2 (exponent x) \<le> x" and "x < power_int 2 (exponent x + 1)"
  using assms exponent_lt_spec[of x] exponent_ge_spec[of x]
  by (auto simp: exponent_def)

lemma exponent_mono:
  assumes "0 < x" and "x \<le> y"
  shows "exponent x \<le> exponent y"
proof (rule ccontr)
  assume "\<not> exponent x \<le> exponent y"
  then have "exponent y + 1 \<le> exponent x" by simp
  then have "power_int (2::rat) (exponent y + 1) \<le> power_int 2 (exponent x)"
    by (rule power_int_increasing) simp
  also have "\<dots> \<le> x" by (rule exponent_spec(1)[OF assms(1)])
  also have "\<dots> \<le> y" by (rule assms(2))
  finally show False using exponent_spec(2)[of y] assms by simp
qed

lemma fl_pos:
  assumes "0 < x"
  shows "fl x = of_int (round_half_even (x / power_int 2 (exponent x - 52))) * power_int 2 (exponent x - 52)"
  using assms by (simp add: fl_def Let_def)

lemma fl_binade:
  assumes "0 < x"
  shows "power_int 2 (exponent x) \<le> fl x" and "fl x \<le> power_int 2 (exponent x + 1)"
proof -
  let ?u = "power_int (2::rat) (exponent x - 52)"
  have u: "0 < ?u" by (simp add: zero_less_power_int)
  have "power_int (2::rat) ((exponent x - 52) + 52) = ?u * power_int 2 52"
    by (rule power_int_add) simp
  then have lo: "power_int 2 (exponent x) = 2 ^ 52 * ?u"
    by simp
  have "power_int (2::rat) ((exponent x - 52) + 53) = ?u * power_int 2 53"
    by (rule power_int_add) simp
  moreover have "exponent x - 52 + 53 = exponent x + 1" by simp
  ultimately have hi: "power_int 2 (exponent x + 1) = 2 ^ 53 * ?u"
    by (simp only: power_int_numeral mult.commute)
  have "2 ^ 52 \<le> x / ?u"
    using exponent_spec(1)[OF assms] u unfolding lo by (simp add: pos_le_divide_eq)
  then have "of_int (2 ^ 52) \<le> x / ?u" by simp
  then have "round_half_even (of_int (2 ^ 52)) \<le> round_half_even (x / ?u)"
    by (rule round_half_even_mono)
  then have a: "(2::int) ^ 52 \<le> round_half_even (x / ?u)"
    by (simp only: round_half_even_of_int)
  have "x / ?u \<le> 2 ^ 53"
    using exponent_spec(2)[OF assms] u unfolding hi by (simp add: pos_divide_le_eq)
  then have "x / ?u \<le> of_int (2 ^ 53)" by simp
  then have "round_half_even (x / ?u) \<le> round_half_even (of_int (2 ^ 53))"
    by (rule round_half_even_mono)
  then have b: "round_half_even (x / ?u) \<le> (2::int) ^ 53"
    by (simp only: round_half_even_of_int)
  from a have "(of_int ((2::int) ^ 52) :: rat) \<le> of_int (round_half_even (x / ?u))"
    by (simp only: of_int_le_iff)
  then have "2 ^ 52 * ?u \<le> of_int (round_half_even (x / ?u)) * ?u"
    using u by simp
  then show "power_int 2 (exponent x) \<le> fl x"
    unfolding lo fl_pos[OF assms] .
  from b have "(of_int (round_half_even (x / ?u)) :: rat) \<le> of_int ((2::int) ^ 53)"
    by (simp only: of_int_le_iff)
  then have "of_int (round_half_even (x / ?u)) * ?u \<le> 2 ^ 53 * ?u"
    using u by simp
  then show "fl x \<le> power_int 2 (exponent x + 1)"
    unfolding hi fl_pos[OF assms] .
qed

lemma fl_zero [simp]: "fl 0 = 0"
  by (simp add: fl_def)

lemma fl_pos_pos:
  assumes "0 < x"
  shows "0 < fl x"
proof -
  have "0 < power_int (2::rat) (exponent x)" by (rule zero_less_power_int) simp
  then show ?thesis using fl_binade(1)[OF assms] by (rule less_le_trans)
qed

lemma fl_mono_pos:
  assumes "0 < x" and "x \<le> y"
  shows "fl x \<le> fl y"
proof (cases "exponent x = exponent y")
  case True
  let ?u = "power_int (2::rat) (exponent x - 52)"
  from assms have y: "0 < y" by simp
  have u: "0 < ?u" by (simp add: zero_less_power_int)
  from assms(2) u have "x / ?u \<le> y / ?u" by (simp add: divide_right_mono)
  then have "round_half_even (x / ?u) \<le> round_half_even (y / ?u)"
    by (rule round_half_even_mono)
  then have "(of_int (round_half_even (x / ?u)) :: rat) \<le> of_int (round_half_even (y / ?u))"
    by (simp only: of_int_le_iff)
  then have "of_int (round_half_even (x / ?u)) * ?u \<le> of_int (round_half_even (y / ?u)) * ?u"
    using u by simp
  then show ?thesis
    unfolding fl_pos[OF assms(1)] fl_pos[OF y] True[symmetric] .
next
  case False
  from assms have y: "0 < y" by simp
  from False exponent_mono[OF assms] have "exponent x + 1 \<le> exponent y" by simp
  then have "power_int (2::rat) (exponent x + 1) \<le> power_int 2 (exponent y)"
    by (rule power_int_increasing) simp
  with fl_binade(2)[OF assms(1)] fl_binade(1)[OF y] show ?thesis by simp
qed

lemma fl_mono:
  assumes "0 \<le> x" and "x \<le> y"
  shows "fl x \<le> fl y"
proof (cases "x = 0")
  case True
  show ?thesis
  proof (cases "y = 0")
    case True
    with \<open>x = 0\<close> show ?thesis by simp
  next
    case False
    with assms True have "0 < y" by simp
    from fl_pos_pos[OF this] True show ?thesis by simp
  qed
next
  case False
  with assms have "0 < x" by simp
  then show ?thesis using assms(2) by (rule fl_mono_pos)
qed

section \<open>The similarity score\<close>

lemma card_Int_le_Un: "finite A \<Longrightarrow> finite B \<Longrightarrow> card (A \<inter> B) \<le> card (A \<union> B)"
  by (rule card_mono) auto

lemma finite_stack_set [simp]: "finite (stack_set d)"
  by (cases "tech_stack d") (simp_all add: stack_set_def)

text \<open>The doubles that the bounds meet, by evaluation.\<close>

lemma fl_one: "fl 1 = 1"
  by code_simp

lemma fl_weight: "fl (fl (2 / 5)) = fl (2 / 5)"
  by code_simp

lemma fl_weight_twice: "fl (fl (2 / 5) + fl (2 / 5)) = fl (4 / 5)"
  by code_simp

lemma weight_bounds: "0 \<le> fl (2 / 5)" "fl (4 / 5) \<le> 1"
  by code_simp+

lemma true_div_bounds:
  assumes "i \<le> u"
  shows "0 \<le> true_div i u" and "true_div i u \<le> 1"
proof -
  have q: "0 \<le> (of_nat i :: rat) / of_nat u" by simp
  from fl_mono[of 0 "of_nat i / of_nat u"] q show "0 \<le> true_div i u"
    by (simp add: true_div_def)
  have "(of_nat i :: rat) / of_nat u \<le> 1"
  proof (cases "u = 0")
    case True
    then show ?thesis by simp
  next
    case False
    then have "0 < (of_nat u :: rat)" by simp
    moreover from assms have "(of_nat i :: rat) \<le> of_nat u" by simp
    ultimately show ?thesis by (simp add: divide_le_eq_1)
  qed
  from fl_mono[OF q this] show "true_div i u \<le> 1"
    by (simp add: true_div_def fl_one)
qed

lemma tech_term_bounds:
  assumes "0 \<le> t" and "t \<le> 1"
  shows "0 \<le> float_mul (fl (2 / 5)) t" and "float_mul (fl (2 / 5)) t \<le> fl (2 / 5)"
proof -
  have a: "0 \<le> fl (2 / 5) * t" using assms(1) weight_bounds(1) by simp
  from fl_mono[of 0 "fl (2 / 5) * t"] a show "0 \<le> float_mul (fl (2 / 5)) t"
    by (simp add: float_mul_def)
  have "fl (2 / 5) * t \<le> fl (2 / 5) * 1"
    using assms(2) weight_bounds(1) by (rule mult_left_mono)
  then have "fl (2 / 5) * t \<le> fl (2 / 5)" by simp
  from fl_mono[OF a this] show "float_mul (fl (2 / 5)) t \<le> fl (2 / 5)"
    by (simp add: float_mul_def fl_weight)
qed

lemma score_bounds:
  assumes "0 \<le> s" and "s \<le> fl (2 / 5)" and "0 \<le> m" and "m \<le> fl (2 / 5)"
  shows "0 \<le> float_add s m" and "float_add s m \<le> fl (4 / 5)"
proof -
  have a: "0 \<le> s + m" using assms by simp
  from fl_mono[of 0 "s + m"] a show "0 \<le> float_add s m"
    by (simp add: float_add_def)
  have "s + m \<le> fl (2 / 5) + fl (2 / 5)" using assms by (intro add_mono)
  from fl_mono[OF a this] show "float_add s m \<le> fl (4 / 5)"
    unfolding float_add_def fl_weight_twice .
qed

lemma calculate_similarity_formula:
  "calculate_similarity q c =
     min 1 (float_add (if project_type q = project_type c then fl (2 / 5) else 0)
              (if stack_set q \<noteq> {} \<and> stack_set c \<noteq> {}
               then float_mul (fl (2 / 5))
                      (true_div (card (stack_set q \<inter> stack_set c))
                                (card (stack_set q \<union> stack_set c)))
               else 0))"
proof -
  let ?s = "if project_type q = project_type c then fl (2 / 5) else (0::rat)"
  have s0: "(if project_type q = project_type c then float_add 0 weight_project_type else 0) = ?s"
    by (simp add: float_add_def weight_project_type_def fl_weight)
  have idem: "float_add ?s 0 = ?s"
    by (simp add: float_add_def fl_weight)
  show ?thesis
  proof (cases "stack_set q \<noteq> {} \<and> stack_set c \<noteq> {}")
    case True
    then have pos: "0 < card (stack_set q \<union> stack_set c)"
      by (simp add: card_gt_0_iff)
    show ?thesis
      unfolding calculate_similarity_def Let_def s0 if_P[OF True] if_P[OF pos]
        weight_tech_stack_def
      by (rule min.commute)
  next
    case False
    show ?thesis
      unfolding calculate_similarity_def Let_def s0 if_not_P[OF False] idem
      by (rule min.commute)
  qed
qed

text \<open>
  C4. The score is the float sum of 0.4 when the two \<^verbatim>\<open>project_type\<close> values are equal (two
  absent keys are equal, as \<^verbatim>\<open>None == None\<close> is) and of 0.4 times the Jaccard index of the
  two technology sets when both are non-empty, cut off at 1. It lies between 0 and the
  float 0.8, and a descriptor with a \<^verbatim>\<open>project_type\<close> and a non-empty stack scores exactly
  the float 0.8 against itself.
\<close>

theorem similarity_weighted_sum:
  "calculate_similarity q c =
     min 1 (float_add (if project_type q = project_type c then fl (2 / 5) else 0)
              (if stack_set q \<noteq> {} \<and> stack_set c \<noteq> {}
               then float_mul (fl (2 / 5))
                      (true_div (card (stack_set q \<inter> stack_set c))
                                (card (stack_set q \<union> stack_set c)))
               else 0))
   \<and> 0 \<le> calculate_similarity q c \<and> calculate_similarity q c \<le> fl (4 / 5)
   \<and> (project_type a \<noteq> None \<and> stack_set a \<noteq> {} \<longrightarrow> calculate_similarity a a = fl (4 / 5))"
proof -
  let ?s = "if project_type q = project_type c then fl (2 / 5) else (0::rat)"
  let ?t = "true_div (card (stack_set q \<inter> stack_set c)) (card (stack_set q \<union> stack_set c))"
  let ?m = "if stack_set q \<noteq> {} \<and> stack_set c \<noteq> {} then float_mul (fl (2 / 5)) ?t else 0"
  have "card (stack_set q \<inter> stack_set c) \<le> card (stack_set q \<union> stack_set c)"
    by (rule card_Int_le_Un) simp_all
  from true_div_bounds[OF this] have t: "0 \<le> ?t" "?t \<le> 1" .
  have s: "0 \<le> ?s" "?s \<le> fl (2 / 5)" using weight_bounds(1) by simp_all
  have m: "0 \<le> ?m" "?m \<le> fl (2 / 5)"
    using tech_term_bounds[OF t] weight_bounds(1) by simp_all
  from score_bounds[OF s m] have b: "0 \<le> float_add ?s ?m" "float_add ?s ?m \<le> fl (4 / 5)" .
  have lo: "0 \<le> calculate_similarity q c"
    unfolding calculate_similarity_formula using b(1) by simp
  have hi: "calculate_similarity q c \<le> fl (4 / 5)"
    unfolding calculate_similarity_formula using b(2) by (simp add: min_le_iff_disj)
  have self: "calculate_similarity a a = fl (4 / 5)" if "stack_set a \<noteq> {}"
  proof -
    from that have one: "true_div (card (stack_set a)) (card (stack_set a)) = 1"
      by (simp add: true_div_def fl_one)
    have "float_add (fl (2 / 5)) (float_mul (fl (2 / 5)) 1) = fl (4 / 5)"
      by (simp only: float_mul_def float_add_def mult_1_right fl_weight fl_weight_twice)
    with weight_bounds(2) have "min 1 (float_add (fl (2 / 5)) (float_mul (fl (2 / 5)) 1)) = fl (4 / 5)"
      by (simp only: min_absorb2)
    then show ?thesis
      unfolding calculate_similarity_formula using that one by simp
  qed
  from lo hi self show ?thesis using calculate_similarity_formula[of q c] by blast
qed

theorem similarity_weighted_sum_witness:
  "project_type record_A \<noteq> None \<and> stack_set record_A \<noteq> {} \<and>
   calculate_similarity record_A record_A = fl (4 / 5) \<and>
   fl (4 / 5) = 3602879701896397 / 4503599627370496 \<and>
   0 \<le> calculate_similarity query_Q record_A \<and>
   calculate_similarity query_Q record_A \<le> fl (4 / 5)"
proof -
  have h: "project_type record_A \<noteq> None \<and> stack_set record_A \<noteq> {}"
    by (simp add: record_A_def stack_set_def)
  have v: "fl (4 / 5) = 3602879701896397 / 4503599627370496"
    by code_simp
  from similarity_weighted_sum[of query_Q record_A record_A] h v show ?thesis by blast
qed

section \<open>Searching the index\<close>

text \<open>
  C5, as the code has it. With \<open>record_A\<close> saved and the query \<open>query_Q\<close>: the score is
  the float value of 0.4 + 0.4 * (2/4), which is 0.6000000000000001; rounded to two
  decimals it is the float 0.6. The search with threshold 0.7 returns nothing, and the
  search with threshold 0.5 returns the entry of \<open>record_A\<close> with similarity 0.6.
\<close>

theorem example_similarity_and_search:
  "calculate_similarity query_Q record_A =
     float_add (fl (2 / 5)) (float_mul (fl (2 / 5)) (true_div 2 4)) \<and>
   calculate_similarity query_Q record_A = 1351079888211149 / 2251799813685248 \<and>
   round2 (calculate_similarity query_Q record_A) = fl (3 / 5) \<and>
   find_similar_configurations query_Q (fl (7 / 10)) store_A = [] \<and>
   map (\<lambda>e. (ix_config_id e, similarity e, config.truncate (full_config e)))
     (find_similar_configurations query_Q (fl (1 / 2)) store_A) =
     [(''20250101_120000'', fl (3 / 5), record_A)]"
proof -
  have a: "calculate_similarity query_Q record_A =
             float_add (fl (2 / 5)) (float_mul (fl (2 / 5)) (true_div 2 4))"
    by code_simp
  have b: "calculate_similarity query_Q record_A = 1351079888211149 / 2251799813685248"
    by code_simp
  have c: "round2 (calculate_similarity query_Q record_A) = fl (3 / 5)"
    by code_simp
  have d: "find_similar_configurations query_Q (fl (7 / 10)) store_A = []"
    by code_simp
  have e: "map (\<lambda>e. (ix_config_id e, similarity e, config.truncate (full_config e)))
     (find_similar_configurations query_Q (fl (1 / 2)) store_A) =
     [(''20250101_120000'', fl (3 / 5), record_A)]"
    by code_simp
  from a b c d e show ?thesis by (intro conjI)
qed

text \<open>
  C5, as it is stated, fails in its first part: the score of \<open>query_Q\<close> against
  \<open>record_A\<close> is not the float 0.6 but the next double above it.
\<close>

theorem example_score_above_six_tenths:
  "calculate_similarity query_Q record_A = 1351079888211149 / 2251799813685248 \<and>
   fl (3 / 5) = 5404319552844595 / 9007199254740992 \<and>
   fl (3 / 5) < calculate_similarity query_Q record_A"
proof -
  have a: "calculate_similarity query_Q record_A = 1351079888211149 / 2251799813685248"
    by code_simp
  have b: "fl (3 / 5) = 5404319552844595 / 9007199254740992"
    by code_simp
  have "fl (3 / 5) < calculate_similarity query_Q record_A"
    unfolding a b by simp
  with a b show ?thesis by (intro conjI)
qed

lemma collect_similar_append:
  "collect_similar q t st refs acc = acc @ collect_similar q t st refs []"
proof (induction refs arbitrary: acc)
  case Nil
  show ?case by simp
next
  case (Cons r refs)
  show ?case
    using Cons.IH[of "acc @ [x]" for x] Cons.IH[of "[x]" for x] Cons.IH[of acc]
    by (simp add: Let_def split: option.splits)
qed

lemma collect_similar_Cons:
  "collect_similar q t st (r # refs) [] =
     (case load_configuration (ix_config_id r) st of
        None \<Rightarrow> collect_similar q t st refs []
      | Some cfg \<Rightarrow>
          if t \<le> calculate_similarity q cfg
          then index_entry.extend r (similar_entry.fields (round2 (calculate_similarity q cfg)) cfg)
                 # collect_similar q t st refs []
          else collect_similar q t st refs [])"
  using collect_similar_append[of q t st refs "[x]" for x]
  by (simp add: Let_def split: option.splits)

lemma index_truncate_extend: "index_entry.truncate (index_entry.extend r e) = r"
  by (simp add: index_entry.defs)

lemma collect_similar_refs:
  "map index_entry.truncate (collect_similar q t st refs []) = filter (hit q t st) refs"
  by (induction refs)
     (simp_all add: collect_similar_Cons hit_def index_truncate_extend
        del: collect_similar.simps(2) split: option.splits)

lemma collect_similar_entry:
  "e \<in> set (collect_similar q t st refs []) \<Longrightarrow>
     load_configuration (ix_config_id e) st = Some (full_config e) \<and>
     t \<le> calculate_similarity q (full_config e) \<and>
     similarity e = round2 (calculate_similarity q (full_config e))"
proof (induction refs)
  case Nil
  then show ?case by simp
next
  case (Cons r refs)
  then show ?case
    by (auto simp: collect_similar_Cons index_entry.defs similar_entry.defs
             simp del: collect_similar.simps(2) split: option.splits if_splits)
qed

text \<open>
  C6, as the code has it. Every returned entry carries the configuration that its
  identifier loads; the score of the query against that configuration is at least the
  threshold, and the entry's \<^verbatim>\<open>similarity\<close> is that score rounded to two decimals. The
  result is sorted by \<^verbatim>\<open>similarity\<close>, highest first; entries of equal \<^verbatim>\<open>similarity\<close> stand
  in the order in which the loop collected them, which is the order of the index.
\<close>

theorem find_similar_sorted_stable:
  "(\<forall>e \<in> set (find_similar_configurations q t st).
      load_configuration (ix_config_id e) st = Some (full_config e) \<and>
      t \<le> calculate_similarity q (full_config e) \<and>
      similarity e = round2 (calculate_similarity q (full_config e))) \<and>
   sorted_wrt (\<lambda>a b. similarity b \<le> similarity a) (find_similar_configurations q t st) \<and>
   (\<forall>k. filter (\<lambda>e. similarity e = k) (find_similar_configurations q t st) =
        filter (\<lambda>e. similarity e = k) (collect_similar q t st (index st) [])) \<and>
   map index_entry.truncate (collect_similar q t st (index st) []) = filter (hit q t st) (index st)"
proof -
  let ?c = "collect_similar q t st (index st) []"
  have a: "\<forall>e \<in> set (find_similar_configurations q t st).
      load_configuration (ix_config_id e) st = Some (full_config e) \<and>
      t \<le> calculate_similarity q (full_config e) \<and>
      similarity e = round2 (calculate_similarity q (full_config e))"
    using collect_similar_entry[of _ q t st "index st"]
    by (simp add: find_similar_configurations_def sort_by_similarity_def)
  have "sorted (map (\<lambda>x. - similarity x) (sort_key (\<lambda>x. - similarity x) ?c))"
    by (rule sorted_sort_key)
  then have b: "sorted_wrt (\<lambda>a b. similarity b \<le> similarity a) (find_similar_configurations q t st)"
    by (simp add: find_similar_configurations_def sort_by_similarity_def sorted_map)
  have c: "filter (\<lambda>e. similarity e = k) (find_similar_configurations q t st) =
        filter (\<lambda>e. similarity e = k) ?c" for k
  proof -
    have "filter (\<lambda>e. - similarity e = - k) (sort_key (\<lambda>x. - similarity x) ?c) =
          filter (\<lambda>e. - similarity e = - k) ?c"
      by (rule sort_key_stable)
    then show ?thesis
      by (simp add: find_similar_configurations_def sort_by_similarity_def)
  qed
  from a b c collect_similar_refs[of q t st "index st"] show ?thesis by blast
qed

theorem find_similar_sorted_stable_witness:
  "map (\<lambda>e. (ix_config_id e, similarity e))
     (find_similar_configurations query_Q (fl (1 / 2)) store_three) =
     [(''20250103_120000'', fl (4 / 5)), (''20250101_120000'', fl (3 / 5)),
      (''20250102_120000'', fl (3 / 5))] \<and>
   map ix_config_id (collect_similar query_Q (fl (1 / 2)) store_three (index store_three) []) =
     [''20250101_120000'', ''20250102_120000'', ''20250103_120000''] \<and>
   sorted_wrt (\<lambda>a b. similarity b \<le> similarity a)
     (find_similar_configurations query_Q (fl (1 / 2)) store_three) \<and>
   filter (\<lambda>e. similarity e = fl (3 / 5))
       (find_similar_configurations query_Q (fl (1 / 2)) store_three) =
     filter (\<lambda>e. similarity e = fl (3 / 5))
       (collect_similar query_Q (fl (1 / 2)) store_three (index store_three) [])"
proof -
  have a: "map (\<lambda>e. (ix_config_id e, similarity e))
     (find_similar_configurations query_Q (fl (1 / 2)) store_three) =
     [(''20250103_120000'', fl (4 / 5)), (''20250101_120000'', fl (3 / 5)),
      (''20250102_120000'', fl (3 / 5))]"
    by code_simp
  have b: "map ix_config_id (collect_similar query_Q (fl (1 / 2)) store_three (index store_three) []) =
     [''20250101_120000'', ''20250102_120000'', ''20250103_120000'']"
    by code_simp
  from a b find_similar_sorted_stable[of query_Q "fl (1 / 2)" store_three] show ?thesis by blast
qed

text \<open>
  C6, as it is stated, fails on either reading of an entry's score.
  \<^item> The \<^verbatim>\<open>similarity\<close> that an entry reports can be below the threshold: \<open>query_T\<close>
    scores 0.5333333333333333 against \<open>record_A\<close>, which passes the threshold 0.533, and
    the entry comes back with the rounded 0.53.
  \<^item> The unrounded scores need not descend: against \<open>query_a\<close> the records of
    \<open>store_two\<close> score 0.04000000000000001 and 0.044444444444444446, both are reported
    as 0.04, and the result keeps them in index order, the lower unrounded score first.
\<close>

theorem find_similar_rounding_breaks_claim:
  "map similarity (find_similar_configurations query_T (fl (533 / 1000)) store_A) =
     [fl (53 / 100)] \<and>
   fl (53 / 100) < fl (533 / 1000) \<and>
   map (\<lambda>e. (ix_config_id e, similarity e, calculate_similarity query_a (full_config e)))
     (find_similar_configurations query_a (fl (3 / 100)) store_two) =
     [(''20250201_120000'', fl (1 / 25), 1441151880758559 / 36028797018963968),
      (''20250202_120000'', fl (1 / 25), 6405119470038039 / 144115188075855872)] \<and>
   (1441151880758559 / 36028797018963968 :: rat) < 6405119470038039 / 144115188075855872"
proof -
  have a: "map similarity (find_similar_configurations query_T (fl (533 / 1000)) store_A) =
     [fl (53 / 100)]"
    by code_simp
  have b: "fl (53 / 100) < fl (533 / 1000)"
    by code_simp
  have c: "map (\<lambda>e. (ix_config_id e, similarity e, calculate_similarity query_a (full_config e)))
     (find_similar_configurations query_a (fl (3 / 100)) store_two) =
     [(''20250201_120000'', fl (1 / 25), 1441151880758559 / 36028797018963968),
      (''20250202_120000'', fl (1 / 25), 6405119470038039 / 144115188075855872)]"
    by code_simp
  have d: "(1441151880758559 / 36028797018963968 :: rat) < 6405119470038039 / 144115188075855872"
    by simp
  from a b c d show ?thesis by (intro conjI)
qed

section \<open>Reading documents that are not JSON\<close>

text \<open>
  C7, as the code has it. A configuration file that exists and does not parse loads as
  \<open>None\<close>, the result of a file that is not there; an index file that does not parse
  loads as the empty index, as a missing one does.
\<close>

theorem corrupt_document_reads_as_absent:
  "(config_files st cid = Some Corrupt \<longrightarrow>
      load_configuration cid st = None \<and>
      load_configuration cid st = load_configuration cid (st\<lparr>config_files := (config_files st)(cid := None)\<rparr>)) \<and>
   (index_file st = Some Corrupt \<longrightarrow>
      load_index st = [] \<and> load_index st = load_index (st\<lparr>index_file := None\<rparr>))"
  by (simp add: load_configuration_def load_index_def)

theorem corrupt_document_reads_as_absent_witness:
  "config_files corrupt_store ''20250101_120000'' = Some Corrupt \<and>
   index_file corrupt_store = Some Corrupt \<and>
   load_configuration ''20250101_120000'' corrupt_store = None \<and>
   load_index corrupt_store = []"
proof -
  have h: "config_files corrupt_store ''20250101_120000'' = Some Corrupt"
          "index_file corrupt_store = Some Corrupt"
    by (simp_all add: corrupt_store_def)
  with corrupt_document_reads_as_absent[of corrupt_store "''20250101_120000''"]
  show ?thesis by blast
qed

text \<open>
  C7, as it is stated, fails: in \<open>corrupt_store\<close> the file of the identifier exists and is
  corrupt, and \<^verbatim>\<open>_load_configuration\<close> returns what it returns in the empty store; the
  corrupt index reads as the empty list.
\<close>

theorem corrupt_record_indistinguishable_from_missing:
  "config_files corrupt_store ''20250101_120000'' = Some Corrupt \<and>
   config_files empty_store ''20250101_120000'' = None \<and>
   load_configuration ''20250101_120000'' corrupt_store =
     load_configuration ''20250101_120000'' empty_store \<and>
   load_configuration ''20250101_120000'' corrupt_store = None \<and>
   index_file corrupt_store = Some Corrupt \<and>
   load_index corrupt_store = []"
  by (simp add: corrupt_store_def empty_store_def load_configuration_def load_index_def)

section \<open>Saving and reusing a configuration\<close>

text \<open>
  C8. For a payload with a \<^verbatim>\<open>project_type\<close> (without it \<^verbatim>\<open>save_configuration\<close> raises
  \<^verbatim>\<open>KeyError\<close>), saving returns the identifier, and loading that identifier yields a
  record whose payload fields are the input and whose three added fields are the
  identifier, the creation time and a \<^verbatim>\<open>reuse_count\<close> of 0.
\<close>

theorem save_load_roundtrip:
  assumes "project_type cfg = Some pt"
  shows "\<exists>st' c. save_configuration cid now cfg st = (Inr cid, st') \<and>
           load_configuration cid st' = Some c \<and>
           config.truncate c = cfg \<and>
           config_id c = cid \<and> stored_config.created_at c = now \<and> reuse_count c = 0"
  using assms
  by (simp add: save_configuration_def save_configuration_file_def save_index_def
        load_configuration_def Let_def config.defs stored_config.defs)

theorem save_load_roundtrip_witness:
  "project_type record_A = Some ''programming'' \<and>
   (\<exists>st' c. save_configuration ''20250101_120000'' ''2025-01-01T12:00:00'' record_A empty_store =
               (Inr ''20250101_120000'', st') \<and>
           load_configuration ''20250101_120000'' st' = Some c \<and>
           config.truncate c = record_A \<and>
           config_id c = ''20250101_120000'' \<and>
           stored_config.created_at c = ''2025-01-01T12:00:00'' \<and> reuse_count c = 0)"
proof -
  have h: "project_type record_A = Some ''programming''" by (simp add: record_A_def)
  from h save_load_roundtrip[OF h, of "''20250101_120000''" "''2025-01-01T12:00:00''" empty_store]
  show ?thesis by blast
qed

lemma reuse_configuration_unknown:
  "load_configuration cid st = None \<Longrightarrow> reuse_configuration cid st = (None, st)"
  by (simp add: reuse_configuration_def)

lemma reuse_configuration_eq:
  assumes "load_configuration cid st = Some c"
  shows "reuse_configuration cid st =
     (Some (c\<lparr>reuse_count := reuse_count c + 1\<rparr>),
      st\<lparr>config_files := (config_files st)(cid \<mapsto> Parsed (c\<lparr>reuse_count := reuse_count c + 1\<rparr>)),
         index := map (\<lambda>e. if ix_config_id e = cid
                             then e\<lparr>ix_reuse_count := ix_reuse_count e + 1\<rparr> else e) (index st),
         index_file := Some (Parsed (map (\<lambda>e. if ix_config_id e = cid
                             then e\<lparr>ix_reuse_count := ix_reuse_count e + 1\<rparr> else e) (index st)))\<rparr>)"
  unfolding reuse_configuration_def using assms
  by (simp add: Let_def save_configuration_file_def save_index_def)

lemma reuse_configuration_step:
  assumes "load_configuration cid st = Some c"
  shows "fst (reuse_configuration cid st) = Some (c\<lparr>reuse_count := reuse_count c + 1\<rparr>)"
    and "load_configuration cid (snd (reuse_configuration cid st)) =
           Some (c\<lparr>reuse_count := reuse_count c + 1\<rparr>)"
    and "index (snd (reuse_configuration cid st)) =
           map (\<lambda>e. if ix_config_id e = cid then e\<lparr>ix_reuse_count := ix_reuse_count e + 1\<rparr> else e)
             (index st)"
    and "index_file (snd (reuse_configuration cid st)) =
           Some (Parsed (index (snd (reuse_configuration cid st))))"
  unfolding reuse_configuration_eq[OF assms]
  by (simp_all add: load_configuration_def)

lemma reuse_configuration_in_step:
  assumes "load_configuration cid st = Some c"
    and "\<forall>e \<in> set (index st). ix_config_id e = cid \<longrightarrow> ix_reuse_count e = reuse_count c"
  shows "\<forall>e \<in> set (index (snd (reuse_configuration cid st))).
           ix_config_id e = cid \<longrightarrow> ix_reuse_count e = reuse_count c + 1"
proof (intro ballI impI)
  fix e
  assume e: "e \<in> set (index (snd (reuse_configuration cid st)))" and i: "ix_config_id e = cid"
  let ?f = "\<lambda>e. if ix_config_id e = cid then e\<lparr>ix_reuse_count := ix_reuse_count e + 1\<rparr> else e"
  from e obtain e0 where e0: "e0 \<in> set (index st)" "e = ?f e0"
    unfolding reuse_configuration_step(3)[OF assms(1)] by (auto simp only: set_map)
  show "ix_reuse_count e = reuse_count c + 1"
  proof (cases "ix_config_id e0 = cid")
    case True
    with e0 assms(2) show ?thesis by simp
  next
    case False
    with e0 i show ?thesis by simp
  qed
qed

lemma reuse_times_count:
  assumes "load_configuration cid st = Some c"
    and "\<forall>e \<in> set (index st). ix_config_id e = cid \<longrightarrow> ix_reuse_count e = reuse_count c"
  shows "load_configuration cid (reuse_times n cid st) =
           Some (c\<lparr>reuse_count := reuse_count c + int n\<rparr>) \<and>
         (\<forall>e \<in> set (index (reuse_times n cid st)).
            ix_config_id e = cid \<longrightarrow> ix_reuse_count e = reuse_count c + int n)"
  using assms
proof (induction n arbitrary: st c)
  case 0
  then show ?case by simp
next
  case (Suc n)
  let ?c = "c\<lparr>reuse_count := reuse_count c + 1\<rparr>"
  let ?st = "snd (reuse_configuration cid st)"
  have a: "load_configuration cid ?st = Some ?c"
    by (rule reuse_configuration_step(2)[OF Suc.prems(1)])
  have b: "\<forall>e \<in> set (index ?st). ix_config_id e = cid \<longrightarrow> ix_reuse_count e = reuse_count ?c"
    using reuse_configuration_in_step[OF Suc.prems] by simp
  from Suc.IH[OF a b] show ?case by (simp add: add.assoc)
qed

text \<open>
  C9. For an identifier whose file does not load, \<^verbatim>\<open>reuse_configuration\<close> returns \<open>None\<close>
  and changes nothing. For one that loads, a call adds one to the \<^verbatim>\<open>reuse_count\<close> of the
  stored record, adds one to the \<^verbatim>\<open>reuse_count\<close> of every index entry of that identifier
  and of no other, and writes the index file. So when the index entries of the identifier
  agree with the record before, they agree after every call, and \<open>n\<close> calls add \<open>n\<close> to
  both.
\<close>

theorem reuse_increments_record_and_index:
  "(load_configuration cid st = None \<longrightarrow> reuse_configuration cid st = (None, st)) \<and>
   (\<forall>c. load_configuration cid st = Some c \<longrightarrow>
      fst (reuse_configuration cid st) = Some (c\<lparr>reuse_count := reuse_count c + 1\<rparr>) \<and>
      load_configuration cid (snd (reuse_configuration cid st)) =
        Some (c\<lparr>reuse_count := reuse_count c + 1\<rparr>) \<and>
      index (snd (reuse_configuration cid st)) =
        map (\<lambda>e. if ix_config_id e = cid then e\<lparr>ix_reuse_count := ix_reuse_count e + 1\<rparr> else e)
          (index st) \<and>
      index_file (snd (reuse_configuration cid st)) =
        Some (Parsed (index (snd (reuse_configuration cid st)))) \<and>
      ((\<forall>e \<in> set (index st). ix_config_id e = cid \<longrightarrow> ix_reuse_count e = reuse_count c) \<longrightarrow>
         load_configuration cid (reuse_times n cid st) =
           Some (c\<lparr>reuse_count := reuse_count c + int n\<rparr>) \<and>
         (\<forall>e \<in> set (index (reuse_times n cid st)).
            ix_config_id e = cid \<longrightarrow> ix_reuse_count e = reuse_count c + int n)))"
proof (intro conjI allI impI)
  assume "load_configuration cid st = None"
  then show "reuse_configuration cid st = (None, st)" by (rule reuse_configuration_unknown)
next
  fix c assume c: "load_configuration cid st = Some c"
  show "fst (reuse_configuration cid st) = Some (c\<lparr>reuse_count := reuse_count c + 1\<rparr>)"
    by (rule reuse_configuration_step(1)[OF c])
  show "load_configuration cid (snd (reuse_configuration cid st)) =
          Some (c\<lparr>reuse_count := reuse_count c + 1\<rparr>)"
    by (rule reuse_configuration_step(2)[OF c])
  show "index (snd (reuse_configuration cid st)) =
          map (\<lambda>e. if ix_config_id e = cid then e\<lparr>ix_reuse_count := ix_reuse_count e + 1\<rparr> else e)
            (index st)"
    by (rule reuse_configuration_step(3)[OF c])
  show "index_file (snd (reuse_configuration cid st)) =
          Some (Parsed (index (snd (reuse_configuration cid st))))"
    by (rule reuse_configuration_step(4)[OF c])
  assume s: "\<forall>e \<in> set (index st). ix_config_id e = cid \<longrightarrow> ix_reuse_count e = reuse_count c"
  from reuse_times_count[OF c s, of n]
  show "load_configuration cid (reuse_times n cid st) =
          Some (c\<lparr>reuse_count := reuse_count c + int n\<rparr>)"
    and "\<forall>e \<in> set (index (reuse_times n cid st)).
           ix_config_id e = cid \<longrightarrow> ix_reuse_count e = reuse_count c + int n"
    by simp_all
qed

theorem reuse_increments_record_and_index_witness:
  "map_option reuse_count (load_configuration ''20250101_120000'' store_A) = Some 0 \<and>
   map (\<lambda>e. (ix_config_id e, ix_reuse_count e)) (index store_A) = [(''20250101_120000'', 0)] \<and>
   map_option reuse_count
     (load_configuration ''20250101_120000'' (reuse_times 3 ''20250101_120000'' store_A)) = Some 3 \<and>
   map (\<lambda>e. (ix_config_id e, ix_reuse_count e))
     (index (reuse_times 3 ''20250101_120000'' store_A)) = [(''20250101_120000'', 3)] \<and>
   load_configuration ''nobody'' store_A = None \<and>
   reuse_configuration ''nobody'' store_A = (None, store_A)"
proof -
  have l: "map_option reuse_count (load_configuration ''20250101_120000'' store_A) = Some 0"
    by code_simp
  then obtain c where c: "load_configuration ''20250101_120000'' store_A = Some c" "reuse_count c = 0"
    by (cases "load_configuration ''20250101_120000'' store_A") auto
  have i: "map (\<lambda>e. (ix_config_id e, ix_reuse_count e)) (index store_A) = [(''20250101_120000'', 0)]"
    by code_simp
  have s: "\<forall>e \<in> set (index store_A). ix_config_id e = ''20250101_120000'' \<longrightarrow>
                  ix_reuse_count e = reuse_count c"
  proof (intro ballI impI)
    fix e assume "e \<in> set (index store_A)"
    then have "(ix_config_id e, ix_reuse_count e) \<in>
                 set (map (\<lambda>e. (ix_config_id e, ix_reuse_count e)) (index store_A))"
      by (simp only: set_map) (rule imageI)
    then show "ix_reuse_count e = reuse_count c" unfolding i using c(2) by simp
  qed
  have n: "load_configuration ''nobody'' store_A = None"
    by code_simp
  have j: "map ix_config_id (index (reuse_times 3 ''20250101_120000'' store_A)) = [''20250101_120000'']"
    by code_simp
  from reuse_increments_record_and_index[of "''20250101_120000''" store_A 3] c(1) s
  have r: "load_configuration ''20250101_120000'' (reuse_times 3 ''20250101_120000'' store_A) =
             Some (c\<lparr>reuse_count := reuse_count c + int 3\<rparr>)"
    and t: "\<forall>e \<in> set (index (reuse_times 3 ''20250101_120000'' store_A)).
              ix_config_id e = ''20250101_120000'' \<longrightarrow> ix_reuse_count e = reuse_count c + int 3"
    by blast+
  from j obtain e where e: "index (reuse_times 3 ''20250101_120000'' store_A) = [e]"
      "ix_config_id e = ''20250101_120000''"
    by (cases "index (reuse_times 3 ''20250101_120000'' store_A)") auto
  with t c(2) have k: "map (\<lambda>e. (ix_config_id e, ix_reuse_count e))
       (index (reuse_times 3 ''20250101_120000'' store_A)) = [(''20250101_120000'', 3)]"
    by simp
  from reuse_increments_record_and_index[of "''nobody''" store_A 0] n
  have u: "reuse_configuration ''nobody'' store_A = (None, store_A)" by blast
  from l i r k n u c(2) show ?thesis by simp
qed

end
